theory Spec2Isabelle
  imports Main "HOL-Library.Word" "HOL-Library.Signed_Division"
begin

section \<open>Machine integers of the sketch\<close>

text \<open>
  The sketch \<^verbatim>\<open>src/main.cpp\<close> is written against the Arduino core. Its pin assignment
  (external interrupts on pins 2 and 3, PWM on pins 5, 6, 9 and 10, analog pins A1 and A2)
  is that of an ATmega328-class AVR board, where \<^verbatim>\<open>int\<close> has 16 bits and \<^verbatim>\<open>long\<close> and
  \<^verbatim>\<open>unsigned long\<close> have 32 bits. Arithmetic is modelled on words of these widths:
  addition, subtraction and multiplication wrap around, which is what the AVR
  instructions do when a signed operation overflows.
\<close>

type_synonym cint = "16 word"
type_synonym clong = "32 word"
type_synonym culong = "32 word"

text \<open>Conversion of an \<^verbatim>\<open>int\<close> operand to \<^verbatim>\<open>long\<close> (sign extension).\<close>

definition long_of_int :: "cint \<Rightarrow> clong" where
  "long_of_int x = scast x"

text \<open>Conversion of a \<^verbatim>\<open>long\<close> value to \<^verbatim>\<open>int\<close> (the low 16 bits are kept).\<close>

definition int_of_long :: "clong \<Rightarrow> cint" where
  "int_of_long x = ucast x"

text \<open>Division of \<^verbatim>\<open>long\<close> values: the quotient is truncated towards zero.\<close>

definition long_div :: "clong \<Rightarrow> clong \<Rightarrow> clong" where
  "long_div a b = word_of_int (sint a sdiv sint b)"

text \<open>
  The Arduino core's macros \<^verbatim>\<open>abs(x) ((x)>0?(x):-(x))\<close> and
  \<^verbatim>\<open>min(a,b) ((a)<(b)?(a):(b))\<close>, at type \<^verbatim>\<open>int\<close>.
\<close>

definition abs_int :: "cint \<Rightarrow> cint" where
  "abs_int x = (if 0 <s x then x else - x)"

definition min_int :: "cint \<Rightarrow> cint \<Rightarrow> cint" where
  "min_int a b = (if a <s b then a else b)"

section \<open>Constants and pin definitions\<close>

definition NUMBER_OF_ACTUATORS :: nat where
  "NUMBER_OF_ACTUATORS = 2"

definition FALSE_PULSE_DELAY :: culong where
  "FALSE_PULSE_DELAY = 8"

definition BASE_SPEED :: cint where
  "BASE_SPEED = 100"

definition OFFSET_MULTIPLIER :: clong where
  "OFFSET_MULTIPLIER = 5"

definition FPWM :: "nat list" where
  "FPWM = [9, 5]"

definition RPWM :: "nat list" where
  "RPWM = [10, 6]"

section \<open>Data structure and global variables\<close>

record ActuatorData =
  speed :: cint
  steps :: clong
  prevSteps :: clong

text \<open>
  The global variables of the sketch. The timer \<^verbatim>\<open>timeElapsed\<close> is only used to end
  the dwell window of \<^verbatim>\<open>moveToLimit\<close>; the number of passes of that busy-wait is an
  input of the model (see \<open>window\<close> below).
\<close>

record state =
  actuators :: "ActuatorData list"
  direction :: cint
  lastDebounceTime :: "culong list"
  lastLogTime :: culong

text \<open>Both arrays are declared with \<^verbatim>\<open>NUMBER_OF_ACTUATORS\<close> elements.\<close>

definition wf_state :: "state \<Rightarrow> bool" where
  "wf_state s \<longleftrightarrow>
     length (actuators s) = NUMBER_OF_ACTUATORS \<and>
     length (lastDebounceTime s) = NUMBER_OF_ACTUATORS"

text \<open>What the sketch sends to the outside: PWM writes and serial output, in order.\<close>

datatype io =
    AnalogWrite nat cint
  | Print_str string
  | Print_int cint
  | Print_long clong
  | Println_str string
  | Println_long clong

fun pwm_trace :: "io list \<Rightarrow> (nat \<times> cint) list" where
  "pwm_trace [] = []"
| "pwm_trace (AnalogWrite pin v # out) = (pin, v) # pwm_trace out"
| "pwm_trace (_ # out) = pwm_trace out"

section \<open>Log actuator status\<close>

text \<open>
  \<^verbatim>\<open>millis()\<close> is read twice; \<open>t_check\<close> is the value of the first reading and
  \<open>t_store\<close> that of the second.
\<close>

definition logActuatorStatus :: "culong \<Rightarrow> culong \<Rightarrow> state \<Rightarrow> state \<times> io list" where
  "logActuatorStatus t_check t_store s =
     (if 1000 \<le> t_check - lastLogTime s
      then (s\<lparr>lastLogTime := t_store\<rparr>,
            [Print_str ''Actuator 1 speed: '',
             Print_int (speed (actuators s ! 0)),
             Print_str '' | Pos: '',
             Print_long (steps (actuators s ! 0)),
             Print_str '' | Actuator 2 speed: '',
             Print_int (speed (actuators s ! 1)),
             Print_str '' | Pos: '',
             Println_long (steps (actuators s ! 1))])
      else (s, []))"

section \<open>Drive actuators\<close>

text \<open>
  The first loop and the division, with the actuator count \<open>n\<close> (the macro
  \<^verbatim>\<open>NUMBER_OF_ACTUATORS\<close>) as a parameter.
\<close>

definition totalSteps_loop :: "nat \<Rightarrow> ActuatorData list \<Rightarrow> clong" where
  "totalSteps_loop n acts = foldl (\<lambda>totalSteps i. totalSteps + steps (acts ! i)) 0 [0..<n]"

definition avgSteps_of :: "nat \<Rightarrow> ActuatorData list \<Rightarrow> clong" where
  "avgSteps_of n acts = long_div (totalSteps_loop n acts) (of_nat n)"

text \<open>
  \<^verbatim>\<open>int offset = (avgSteps - actuators[i].steps) * OFFSET_MULTIPLIER * direction;\<close>
  The product is computed in \<^verbatim>\<open>long\<close> and then converted to \<^verbatim>\<open>int\<close>.
\<close>

definition offset_of :: "clong \<Rightarrow> clong \<Rightarrow> cint \<Rightarrow> cint" where
  "offset_of avgSteps st dir =
     int_of_long ((avgSteps - st) * OFFSET_MULTIPLIER * long_of_int dir)"

text \<open>\<^verbatim>\<open>min(abs(BASE_SPEED + offset), 255)\<close>\<close>

definition speed_of :: "cint \<Rightarrow> cint" where
  "speed_of offset = min_int (abs_int (BASE_SPEED + offset)) 255"

text \<open>The \<^verbatim>\<open>switch (direction)\<close> statement, for actuator \<open>i\<close> with speed \<open>v\<close>.\<close>

definition route_speed :: "cint \<Rightarrow> nat \<Rightarrow> cint \<Rightarrow> io list" where
  "route_speed dir i v =
     (if dir = 1 then [AnalogWrite (FPWM ! i) v, AnalogWrite (RPWM ! i) 0]
      else if dir = - 1 then [AnalogWrite (FPWM ! i) 0, AnalogWrite (RPWM ! i) v]
      else [AnalogWrite (FPWM ! i) 0, AnalogWrite (RPWM ! i) 0])"

text \<open>The body of the second loop, for actuator \<open>i\<close>.\<close>

definition drive_one :: "clong \<Rightarrow> state \<times> io list \<Rightarrow> nat \<Rightarrow> state \<times> io list" where
  "drive_one avgSteps acc i =
     (let s = fst acc;
          offset = offset_of avgSteps (steps (actuators s ! i)) (direction s);
          s' = s\<lparr>actuators := (actuators s)[i := (actuators s ! i)\<lparr>speed := speed_of offset\<rparr>]\<rparr>
      in (s', snd acc @ route_speed (direction s') i (speed (actuators s' ! i))))"

definition driveActuators :: "culong \<Rightarrow> culong \<Rightarrow> state \<Rightarrow> state \<times> io list" where
  "driveActuators t_check t_store s =
     (let avgSteps = avgSteps_of NUMBER_OF_ACTUATORS (actuators s);
          driven = foldl (drive_one avgSteps) (s, []) [0..<NUMBER_OF_ACTUATORS];
          logged = logActuatorStatus t_check t_store (fst driven)
      in (fst logged, snd driven @ snd logged))"

text \<open>The offsets that one call of \<open>driveActuators\<close> computes, by actuator.\<close>

definition offsets :: "state \<Rightarrow> cint list" where
  "offsets s =
     map (\<lambda>i. offset_of (avgSteps_of NUMBER_OF_ACTUATORS (actuators s))
                (steps (actuators s ! i)) (direction s))
       [0..<NUMBER_OF_ACTUATORS]"

section \<open>Interrupt handlers\<close>

text \<open>
  A handler runs with interrupts disabled, and the millisecond counter is advanced by an
  interrupt, so both readings of \<^verbatim>\<open>millis()\<close> in a handler give the same value \<open>now\<close>.
\<close>

definition counter_0 :: "culong \<Rightarrow> state \<Rightarrow> state" where
  "counter_0 now s =
     (if FALSE_PULSE_DELAY < now - lastDebounceTime s ! 0
      then s\<lparr>lastDebounceTime := (lastDebounceTime s)[0 := now],
             actuators := (actuators s)[0 := (actuators s ! 0)
               \<lparr>steps := steps (actuators s ! 0) + long_of_int (direction s)\<rparr>]\<rparr>
      else s)"

definition counter_1 :: "culong \<Rightarrow> state \<Rightarrow> state" where
  "counter_1 now s =
     (if FALSE_PULSE_DELAY < now - lastDebounceTime s ! 1
      then s\<lparr>lastDebounceTime := (lastDebounceTime s)[1 := now],
             actuators := (actuators s)[1 := (actuators s ! 1)
               \<lparr>steps := steps (actuators s ! 1) + long_of_int (direction s)\<rparr>]\<rparr>
      else s)"

text \<open>
  A rising edge on \<^verbatim>\<open>HALL[0]\<close> or \<^verbatim>\<open>HALL[1]\<close>, with the time of the edge in
  milliseconds since the board started. \<^verbatim>\<open>millis()\<close> is that time as an
  \<^verbatim>\<open>unsigned long\<close>: it wraps around after \<open>2 ^ 32\<close> ms.
\<close>

datatype event = Hall0 nat | Hall1 nat

fun edge_time :: "event \<Rightarrow> nat" where
  "edge_time (Hall0 t) = t"
| "edge_time (Hall1 t) = t"

fun edge_actuator :: "event \<Rightarrow> nat" where
  "edge_actuator (Hall0 t) = 0"
| "edge_actuator (Hall1 t) = 1"

definition millis :: "nat \<Rightarrow> culong" where
  "millis t = of_nat t"

fun isr :: "event \<Rightarrow> state \<Rightarrow> state" where
  "isr (Hall0 t) s = counter_0 (millis t) s"
| "isr (Hall1 t) s = counter_1 (millis t) s"

fun interrupts :: "event list \<Rightarrow> state \<Rightarrow> state" where
  "interrupts [] s = s"
| "interrupts (e # es) s = interrupts es (isr e s)"

text \<open>The test that the handler of the edge makes when it starts in state \<open>s\<close>.\<close>

definition accepts :: "event \<Rightarrow> state \<Rightarrow> bool" where
  "accepts e s \<longleftrightarrow>
     FALSE_PULSE_DELAY < millis (edge_time e) - lastDebounceTime s ! edge_actuator e"

text \<open>
  The times of the edges of actuator \<open>a\<close> that pass this test when the handlers run on
  the edges in order.
\<close>

fun accepted_times :: "nat \<Rightarrow> event list \<Rightarrow> state \<Rightarrow> nat list" where
  "accepted_times a [] s = []"
| "accepted_times a (e # es) s =
     (if edge_actuator e = a \<and> accepts e s
      then edge_time e # accepted_times a es (isr e s)
      else accepted_times a es (isr e s))"

section \<open>Check step changes\<close>

fun stepsChanged_scan :: "nat list \<Rightarrow> state \<Rightarrow> bool" where
  "stepsChanged_scan [] s = False"
| "stepsChanged_scan (i # is) s =
     (if prevSteps (actuators s ! i) \<noteq> steps (actuators s ! i) then True
      else stepsChanged_scan is s)"

definition haveStepsChanged :: "state \<Rightarrow> bool" where
  "haveStepsChanged s = stepsChanged_scan [0..<NUMBER_OF_ACTUATORS] s"

section \<open>Move to limit\<close>

definition reset_steps :: "state \<Rightarrow> state" where
  "reset_steps s =
     foldl (\<lambda>s i. s\<lparr>actuators := (actuators s)[i := (actuators s ! i)\<lparr>steps := 0, prevSteps := 0\<rparr>]\<rparr>)
       s [0..<NUMBER_OF_ACTUATORS]"

definition snapshot :: "state \<Rightarrow> state" where
  "snapshot s =
     foldl (\<lambda>s i. s\<lparr>actuators := (actuators s)[i := (actuators s ! i)
                      \<lparr>prevSteps := steps (actuators s ! i)\<rparr>]\<rparr>)
       s [0..<NUMBER_OF_ACTUATORS]"

text \<open>One pass of the body of \<^verbatim>\<open>while (timeElapsed < 200)\<close>.\<close>

definition dwell_pass :: "cint \<Rightarrow> state \<Rightarrow> io list" where
  "dwell_pass spd s =
     concat (map (\<lambda>i. [AnalogWrite (FPWM ! i) (if direction s = 1 then spd else 0),
                       AnalogWrite (RPWM ! i) (if direction s = - 1 then spd else 0)])
               [0..<NUMBER_OF_ACTUATORS])"

text \<open>
  One iteration of the \<^verbatim>\<open>do ... while\<close> loop, as the interrupts cut it: the edges
  that arrive before the snapshot is taken, for each pass of the busy-wait the edges that
  arrive before it, and the edges that arrive after the last pass and before the check.
  Handlers of different actuators write different variables, so each interleaving of the
  handlers with the main loop is one of these.
\<close>

record window =
  before_snapshot :: "event list"
  passes :: "event list list"
  before_check :: "event list"

fun dwell :: "cint \<Rightarrow> event list list \<Rightarrow> state \<times> io list \<Rightarrow> state \<times> io list" where
  "dwell spd [] acc = acc"
| "dwell spd (evs # rest) acc =
     (let s = interrupts evs (fst acc)
      in dwell spd rest (s, snd acc @ dwell_pass spd s))"

definition run_window :: "cint \<Rightarrow> window \<Rightarrow> state \<times> io list \<Rightarrow> state \<times> io list" where
  "run_window spd w acc =
     (let s1 = snapshot (interrupts (before_snapshot w) (fst acc));
          dwelt = dwell spd (passes w) (s1, snd acc)
      in (interrupts (before_check w) (fst dwelt), snd dwelt))"

text \<open>
  The \<^verbatim>\<open>do ... while\<close> loop on the windows that the environment supplies. \<open>None\<close>: the
  loop is still running when they are used up.
\<close>

fun seek_loop :: "cint \<Rightarrow> window list \<Rightarrow> state \<times> io list \<Rightarrow> (state \<times> io list) option" where
  "seek_loop spd [] acc = None"
| "seek_loop spd (w # ws) acc =
     (let acc' = run_window spd w acc
      in if haveStepsChanged (fst acc') then seek_loop spd ws acc' else Some acc')"

definition moveToLimit :: "cint \<Rightarrow> window list \<Rightarrow> state \<Rightarrow> (state \<times> io list) option" where
  "moveToLimit spd ws s =
     seek_loop spd ws (reset_steps s, [Println_str ''Moving to limit...''])"

section \<open>Example states\<close>

text \<open>
  The state that \<^verbatim>\<open>setup()\<close> leaves, with the given step counts and direction.
\<close>

definition example_state :: "clong \<Rightarrow> clong \<Rightarrow> cint \<Rightarrow> state" where
  "example_state st0 st1 dir =
     \<lparr>actuators = [\<lparr>speed = 0, steps = st0, prevSteps = 0\<rparr>,
                   \<lparr>speed = 0, steps = st1, prevSteps = 0\<rparr>],
      direction = dir, lastDebounceTime = [0, 0], lastLogTime = 0\<rparr>"

text \<open>
  Two windows of \<open>moveToLimit\<close>, of two passes each: in the first an edge arrives on
  actuator 1 at 300 ms, in the second no edge arrives.
\<close>

definition window_moving :: window where
  "window_moving = \<lparr>before_snapshot = [], passes = [[], [Hall1 300]], before_check = []\<rparr>"

definition window_quiet :: window where
  "window_quiet = \<lparr>before_snapshot = [], passes = [[], []], before_check = []\<rparr>"

section \<open>Basic facts\<close>

lemma upt_actuators: "[0..<NUMBER_OF_ACTUATORS] = [0, 1]"
  by (simp add: NUMBER_OF_ACTUATORS_def upt_rec)

lemma length_2E:
  assumes "length xs = 2"
  obtains a b where "xs = [a, b]"
  using assms by (cases xs; cases "tl xs") auto

lemma wf_stateE:
  assumes "wf_state s"
  obtains a0 a1 d0 d1 where "actuators s = [a0, a1]" "lastDebounceTime s = [d0, d1]"
  using assms unfolding wf_state_def NUMBER_OF_ACTUATORS_def
  by (metis length_2E)

lemma wf_example_state [simp]: "wf_state (example_state st0 st1 dir)"
  by (simp add: wf_state_def example_state_def NUMBER_OF_ACTUATORS_def)

lemma pwm_trace_append [simp]: "pwm_trace (xs @ ys) = pwm_trace xs @ pwm_trace ys"
  by (induction xs rule: pwm_trace.induct) simp_all

subsection \<open>Signed values\<close>

lemma sint_word_of_int_long:
  "- (2 ^ 31) \<le> k \<Longrightarrow> k < 2 ^ 31 \<Longrightarrow> sint (word_of_int k :: clong) = k"
  by (simp add: sint_sbintrunc' signed_take_bit_int_eq_self)

lemma sint_long_range: "- (2 ^ 31) \<le> sint (x :: clong)" "sint (x :: clong) < 2 ^ 31"
  using sint_ge [of x] sint_lt [of x] by simp_all

lemma sint_of_nat_long: "n < 2 ^ 31 \<Longrightarrow> sint (of_nat n :: clong) = int n"
  using sint_word_of_int_long [of "int n"] by simp

lemma sint_int_range: "- 32768 \<le> sint (x :: cint)" "sint (x :: cint) < 32768"
  using sint_ge [of x] sint_lt [of x] by simp_all

lemma sint_int_min: "sint (x :: cint) = - 32768 \<longleftrightarrow> x = - 32768"
proof
  assume "sint x = - 32768"
  then have "sint x = sint (- 32768 :: cint)" by simp
  then show "x = - 32768" by (rule signed_word_eqI)
qed simp

lemma sint_uminus_int: "x \<noteq> - 32768 \<Longrightarrow> sint (- x :: cint) = - sint x"
proof -
  assume "x \<noteq> - 32768"
  then have "sint x \<noteq> - 32768" by (simp add: sint_int_min)
  then have "- 32768 \<le> - sint x" "- sint x < 32768"
    using sint_int_range [of x] by linarith+
  then show ?thesis
    by (simp add: sint_word_minus signed_take_bit_int_eq_self)
qed

subsection \<open>Truncating division\<close>

lemma sdiv_nonneg: "0 \<le> t \<Longrightarrow> 0 < n \<Longrightarrow> (t::int) sdiv n = t div n"
  by (simp add: signed_divide_int_def sgn_if)

lemma sdiv_nonpos: "t \<le> 0 \<Longrightarrow> 0 < n \<Longrightarrow> (t::int) sdiv n = - ((- t) div n)"
  by (simp add: signed_divide_int_def sgn_if)

lemma div_law:
  assumes n: "0 < (n::int)"
  shows "(t div n) * n \<le> t \<and> t < (t div n + 1) * n"
proof -
  have split: "(t div n) * n + t mod n = t" by simp
  have rem: "0 \<le> t mod n" "t mod n < n" using n by simp_all
  have "(t div n + 1) * n = (t div n) * n + n" by (simp add: algebra_simps)
  with split rem show ?thesis by linarith
qed

lemma sdiv_law:
  assumes n: "0 < (n::int)"
  shows "(0 \<le> t \<longrightarrow> (t sdiv n) * n \<le> t \<and> t < (t sdiv n + 1) * n)
       \<and> (t \<le> 0 \<longrightarrow> (t sdiv n - 1) * n < t \<and> t \<le> (t sdiv n) * n)"
proof (intro conjI impI)
  assume t: "0 \<le> t"
  show "(t sdiv n) * n \<le> t" "t < (t sdiv n + 1) * n"
    using div_law [OF n, of t] by (simp_all add: sdiv_nonneg [OF t n])
next
  assume t: "t \<le> 0"
  have d: "(- t div n) * n \<le> - t" "- t < (- t div n + 1) * n"
    using div_law [OF n, of "- t"] by simp_all
  show "(t sdiv n - 1) * n < t" "t \<le> (t sdiv n) * n"
    using d by (simp_all add: sdiv_nonpos [OF t n] algebra_simps)
qed

lemma sdiv_pos_range:
  assumes n: "0 < (n::int)"
  shows "- \<bar>t\<bar> \<le> t sdiv n" "t sdiv n \<le> \<bar>t\<bar>" "t < 0 \<Longrightarrow> t sdiv n \<le> 0"
proof -
  show "- \<bar>t\<bar> \<le> t sdiv n" "t sdiv n \<le> \<bar>t\<bar>"
    using sdiv_int_range [of t n] by simp_all
  show "t sdiv n \<le> 0" if "t < 0"
    using that n by (simp add: sdiv_nonpos pos_imp_zdiv_nonneg_iff)
qed

lemma sint_long_div:
  assumes b: "0 < sint b"
  shows "sint (long_div a b) = sint a sdiv sint b"
proof -
  have "- (2 ^ 31) \<le> sint a sdiv sint b" "sint a sdiv sint b < 2 ^ 31"
    using sdiv_pos_range [OF b, of "sint a"] sint_long_range [of a] by linarith+
  then show ?thesis
    by (simp add: long_div_def sint_word_of_int_long)
qed

subsection \<open>The sum of the step counts\<close>

lemma totalSteps_loop_Suc:
  "totalSteps_loop (Suc n) acts = totalSteps_loop n acts + steps (acts ! n)"
  by (simp add: totalSteps_loop_def)

lemma totalSteps_loop_word_of_int:
  "totalSteps_loop n acts = word_of_int (\<Sum>i<n. sint (steps (acts ! i)))"
  by (induction n) (simp_all add: totalSteps_loop_Suc, simp add: totalSteps_loop_def)

lemma totalSteps_example:
  "totalSteps_loop NUMBER_OF_ACTUATORS (actuators (example_state st0 st1 dir)) = st0 + st1"
  by (simp add: totalSteps_loop_def upt_actuators example_state_def)

section \<open>The average of the step counts\<close>

text \<open>
  C1 (as the code has it). \<^verbatim>\<open>totalSteps / NUMBER_OF_ACTUATORS\<close> truncates towards zero.
  For every actuator count \<open>n \<ge> 1\<close> and all step counts, with \<open>t\<close> the value of
  \<^verbatim>\<open>totalSteps\<close> and \<open>a\<close> the value of \<^verbatim>\<open>avgSteps\<close>: when \<open>t\<close> is not negative,
  \<open>a * n \<le> t < (a + 1) * n\<close>; when \<open>t\<close> is not positive, \<open>(a - 1) * n < t \<le> a * n\<close>.
  \<open>t\<close> is the sum of the step counts whenever that sum fits in a \<^verbatim>\<open>long\<close>.
\<close>

theorem avgSteps_truncation:
  assumes n: "1 \<le> n" "n < 2 ^ 31"
  shows "let t = sint (totalSteps_loop n acts); a = sint (avgSteps_of n acts)
         in (0 \<le> t \<longrightarrow> a * int n \<le> t \<and> t < (a + 1) * int n)
          \<and> (t \<le> 0 \<longrightarrow> (a - 1) * int n < t \<and> t \<le> a * int n)
          \<and> (- (2 ^ 31) \<le> (\<Sum>i<n. sint (steps (acts ! i))) \<and>
               (\<Sum>i<n. sint (steps (acts ! i))) < 2 ^ 31
               \<longrightarrow> t = (\<Sum>i<n. sint (steps (acts ! i))))"
proof -
  define t where "t = sint (totalSteps_loop n acts)"
  have sn: "sint (of_nat n :: clong) = int n"
    using n by (simp add: sint_of_nat_long)
  have pos: "0 < int n" using n by simp
  have a: "sint (avgSteps_of n acts) = t sdiv int n"
    unfolding t_def avgSteps_of_def using pos by (simp add: sint_long_div sn)
  have s: "- (2 ^ 31) \<le> (\<Sum>i<n. sint (steps (acts ! i))) \<Longrightarrow>
      (\<Sum>i<n. sint (steps (acts ! i))) < 2 ^ 31 \<Longrightarrow>
      t = (\<Sum>i<n. sint (steps (acts ! i)))"
    unfolding t_def totalSteps_loop_word_of_int by (rule sint_word_of_int_long)
  show ?thesis
    unfolding Let_def a t_def [symmetric]
    using sdiv_law [OF pos, of t] s by blast
qed

text \<open>
  The theorem at step counts \<open>-7, 2\<close> (sum \<open>-5\<close>, average \<open>-2\<close>) and at step counts
  \<open>100, 80\<close> (sum \<open>180\<close>, average \<open>90\<close>).
\<close>

theorem avgSteps_truncation_witness:
  "(1::nat) \<le> 2 \<and> (2::nat) < 2 ^ 31
   \<and> sint (totalSteps_loop 2 (actuators (example_state (- 7) 2 1))) = - 5
   \<and> sint (avgSteps_of 2 (actuators (example_state (- 7) 2 1))) = - 2
   \<and> (- 2 - 1) * 2 < (- 5 :: int) \<and> (- 5 :: int) \<le> - 2 * 2
   \<and> sint (totalSteps_loop 2 (actuators (example_state 100 80 1))) = 180
   \<and> sint (avgSteps_of 2 (actuators (example_state 100 80 1))) = 90
   \<and> 90 * 2 \<le> (180 :: int) \<and> (180 :: int) < (90 + 1) * 2"
  using avgSteps_truncation [of 2 "actuators (example_state (- 7) 2 1)"]
    avgSteps_truncation [of 2 "actuators (example_state 100 80 1)"]
  unfolding avgSteps_of_def totalSteps_example [unfolded NUMBER_OF_ACTUATORS_def]
  by (simp add: long_div_def signed_divide_int_def)

text \<open>
  C1 as stated fails when the sum is negative and not a multiple of the count: at step
  counts \<open>-1, 0\<close> the sum is \<open>-1\<close> and the average is \<open>0\<close>, and \<open>0 * 2 \<le> -1\<close> is false.
\<close>

theorem avgSteps_floor_law_counterexample:
  "sint (totalSteps_loop 2 (actuators (example_state (- 1) 0 1))) = - 1
   \<and> sint (avgSteps_of 2 (actuators (example_state (- 1) 0 1))) = 0
   \<and> \<not> (sint (avgSteps_of 2 (actuators (example_state (- 1) 0 1))) * 2
          \<le> sint (totalSteps_loop 2 (actuators (example_state (- 1) 0 1))))"
  unfolding avgSteps_of_def totalSteps_example [unfolded NUMBER_OF_ACTUATORS_def]
  by (simp add: long_div_def signed_divide_int_def)

section \<open>Speeds and PWM writes of \<open>driveActuators\<close>\<close>

lemma logActuatorStatus_actuators [simp]:
  "actuators (fst (logActuatorStatus t_check t_store s)) = actuators s"
  by (simp add: logActuatorStatus_def)

lemma logActuatorStatus_direction [simp]:
  "direction (fst (logActuatorStatus t_check t_store s)) = direction s"
  by (simp add: logActuatorStatus_def)

lemma logActuatorStatus_lastDebounceTime [simp]:
  "lastDebounceTime (fst (logActuatorStatus t_check t_store s)) = lastDebounceTime s"
  by (simp add: logActuatorStatus_def)

lemma logActuatorStatus_pwm [simp]:
  "pwm_trace (snd (logActuatorStatus t_check t_store s)) = []"
  by (simp add: logActuatorStatus_def)

lemma pwm_trace_route_speed:
  "pwm_trace (route_speed dir i v) =
     [(FPWM ! i, if dir = 1 then v else 0), (RPWM ! i, if dir = - 1 then v else 0)]"
  by (simp add: route_speed_def)

lemma drive_loop:
  assumes "wf_state s"
  shows "foldl (drive_one avg) (s, []) [0..<NUMBER_OF_ACTUATORS] =
     (s\<lparr>actuators :=
          [(actuators s ! 0)\<lparr>speed := speed_of (offset_of avg (steps (actuators s ! 0)) (direction s))\<rparr>,
           (actuators s ! 1)\<lparr>speed := speed_of (offset_of avg (steps (actuators s ! 1)) (direction s))\<rparr>]\<rparr>,
      route_speed (direction s) 0 (speed_of (offset_of avg (steps (actuators s ! 0)) (direction s))) @
      route_speed (direction s) 1 (speed_of (offset_of avg (steps (actuators s ! 1)) (direction s))))"
proof -
  from assms obtain a0 a1 d0 d1 where "actuators s = [a0, a1]" "lastDebounceTime s = [d0, d1]"
    by (rule wf_stateE)
  then show ?thesis
    by (simp add: upt_actuators drive_one_def Let_def)
qed

lemma offsets_nth:
  "offsets s ! 0 = offset_of (avgSteps_of NUMBER_OF_ACTUATORS (actuators s))
                     (steps (actuators s ! 0)) (direction s)"
  "offsets s ! Suc 0 = offset_of (avgSteps_of NUMBER_OF_ACTUATORS (actuators s))
                     (steps (actuators s ! Suc 0)) (direction s)"
  by (simp_all add: offsets_def upt_actuators)

lemma driveActuators_actuators:
  assumes "wf_state s"
  shows "actuators (fst (driveActuators t_check t_store s)) =
     [(actuators s ! 0)\<lparr>speed := speed_of (offsets s ! 0)\<rparr>,
      (actuators s ! 1)\<lparr>speed := speed_of (offsets s ! 1)\<rparr>]"
  by (simp add: driveActuators_def Let_def drive_loop [OF assms] offsets_nth)

lemma driveActuators_pwm:
  assumes "wf_state s"
  shows "pwm_trace (snd (driveActuators t_check t_store s)) =
     [(9, if direction s = 1 then speed_of (offsets s ! 0) else 0),
      (10, if direction s = - 1 then speed_of (offsets s ! 0) else 0),
      (5, if direction s = 1 then speed_of (offsets s ! 1) else 0),
      (6, if direction s = - 1 then speed_of (offsets s ! 1) else 0)]"
  by (simp add: driveActuators_def Let_def drive_loop [OF assms] offsets_nth
      pwm_trace_route_speed FPWM_def RPWM_def)

lemma driveActuators_globals:
  assumes "wf_state s"
  shows "direction (fst (driveActuators t_check t_store s)) = direction s"
    and "lastDebounceTime (fst (driveActuators t_check t_store s)) = lastDebounceTime s"
  by (simp_all add: driveActuators_def Let_def drive_loop [OF assms])

lemma avgSteps_example:
  "avgSteps_of NUMBER_OF_ACTUATORS (actuators (example_state st0 st1 dir)) = long_div (st0 + st1) 2"
  by (simp add: avgSteps_of_def totalSteps_example) (simp add: NUMBER_OF_ACTUATORS_def)

lemma offsets_example:
  "offsets (example_state st0 st1 dir) =
     [offset_of (long_div (st0 + st1) 2) st0 dir, offset_of (long_div (st0 + st1) 2) st1 dir]"
  unfolding offsets_def avgSteps_example
  by (simp add: upt_actuators example_state_def)

text \<open>
  C2. Scenario A: with step counts \<open>100, 80\<close> and direction Forward, one call of
  \<open>driveActuators\<close> computes the average 90, the offsets \<open>-50\<close> and \<open>50\<close> and the speeds
  50 and 150; the speeds go to the forward pins 9 and 5.
\<close>

theorem scenario_A:
  "avgSteps_of NUMBER_OF_ACTUATORS (actuators (example_state 100 80 1)) = 90
   \<and> offsets (example_state 100 80 1) = [- 50, 50]
   \<and> map speed (actuators (fst (driveActuators t_check t_store (example_state 100 80 1)))) = [50, 150]
   \<and> pwm_trace (snd (driveActuators t_check t_store (example_state 100 80 1))) =
       [(9, 50), (10, 0), (5, 150), (6, 0)]"
proof -
  have avg: "long_div 180 2 = 90"
    by (simp add: long_div_def signed_divide_int_def)
  have ofs: "offset_of 90 100 1 = - 50" "offset_of 90 80 1 = 50"
    by (simp_all add: offset_of_def OFFSET_MULTIPLIER_def long_of_int_def int_of_long_def)
  have off: "offsets (example_state 100 80 1) = [- 50, 50]"
    by (simp add: offsets_example avg ofs)
  have sp: "speed_of (- 50) = 50" "speed_of 50 = 150"
    by (simp_all add: speed_of_def BASE_SPEED_def abs_int_def min_int_def word_sless_alt)
  have dir: "direction (example_state 100 80 1) = 1"
    by (simp add: example_state_def)
  show ?thesis
    by (simp add: avgSteps_example avg off driveActuators_actuators driveActuators_pwm sp dir)
qed

section \<open>The clamp\<close>

lemma abs_int_sint: "x \<noteq> - 32768 \<Longrightarrow> sint (abs_int x) = \<bar>sint x\<bar>"
  by (auto simp: abs_int_def word_sless_alt sint_uminus_int)

lemma min_int_sint: "sint (min_int a b) = min (sint a) (sint b)"
  by (simp add: min_int_def word_sless_alt min_def)

lemma speed_of_range:
  "BASE_SPEED + offset \<noteq> - 32768 \<Longrightarrow>
     0 \<le> sint (speed_of offset) \<and> sint (speed_of offset) \<le> 255"
  by (simp add: speed_of_def min_int_sint abs_int_sint)

lemma long_of_int_word_of_int: "long_of_int d = word_of_int (sint d)"
  by (simp add: long_of_int_def)

lemma int_of_long_word_of_int: "int_of_long (word_of_int k) = word_of_int k"
  unfolding int_of_long_def
  by (simp add: ucast_eq word_of_int_eq_iff take_bit_take_bit unsigned_of_int min_def)

lemma sint_word_of_int_int:
  "- 32768 \<le> k \<Longrightarrow> k < 32768 \<Longrightarrow> sint (word_of_int k :: cint) = k"
  by (simp add: sint_sbintrunc' signed_take_bit_int_eq_self)

lemma offset_of_word_of_int:
  "offset_of avg st dir = word_of_int ((sint avg - sint st) * 5 * sint dir)"
proof -
  have "(avg - st) * OFFSET_MULTIPLIER * long_of_int dir = word_of_int ((sint avg - sint st) * 5 * sint dir)"
    by (simp add: OFFSET_MULTIPLIER_def long_of_int_word_of_int)
  then show ?thesis
    by (simp only: offset_of_def int_of_long_word_of_int)
qed

text \<open>
  While the positions differ from the average by at most 6533 steps, nothing overflows:
  \<^verbatim>\<open>BASE_SPEED + offset\<close> is the number that the formula gives.
\<close>

lemma base_plus_offset_sint:
  assumes "\<bar>sint avg - sint st\<bar> \<le> 6533" and "dir = 1 \<or> dir = - 1 \<or> dir = 0"
  shows "sint (BASE_SPEED + offset_of avg st dir) = 100 + (sint avg - sint st) * 5 * sint dir"
proof -
  have d: "sint dir = 1 \<or> sint dir = - 1 \<or> sint dir = 0"
    using assms(2) by auto
  have "BASE_SPEED + offset_of avg st dir = word_of_int (100 + (sint avg - sint st) * 5 * sint dir)"
    by (simp add: BASE_SPEED_def offset_of_word_of_int)
  moreover have "- 32768 \<le> 100 + (sint avg - sint st) * 5 * sint dir"
      "100 + (sint avg - sint st) * 5 * sint dir < 32768"
    using assms(1) d by auto
  ultimately show ?thesis
    by (simp only: sint_word_of_int_int)
qed

lemma base_plus_offset_not_min:
  assumes "\<bar>sint avg - sint st\<bar> \<le> 6533" and "dir = 1 \<or> dir = - 1 \<or> dir = 0"
  shows "BASE_SPEED + offset_of avg st dir \<noteq> - 32768"
proof
  assume "BASE_SPEED + offset_of avg st dir = - 32768"
  then have "sint (BASE_SPEED + offset_of avg st dir) = - 32768"
    by simp
  then have "100 + (sint avg - sint st) * 5 * sint dir = - 32768"
    by (simp only: base_plus_offset_sint [OF assms])
  moreover have "sint dir = 1 \<or> sint dir = - 1 \<or> sint dir = 0"
    using assms(2) by auto
  ultimately show False
    using assms(1) by auto
qed

text \<open>
  While every actuator is within 6533 steps of the average and the direction is Forward,
  Reverse or Stop, the speed that \<open>driveActuators\<close> stores lies in \<open>[0, 255]\<close>.
\<close>

lemma speed_in_range_near_average:
  assumes "wf_state s" and "i < NUMBER_OF_ACTUATORS"
    and "\<bar>sint (avgSteps_of NUMBER_OF_ACTUATORS (actuators s)) - sint (steps (actuators s ! i))\<bar>
           \<le> 6533"
    and "direction s = 1 \<or> direction s = - 1 \<or> direction s = 0"
  shows "0 \<le> sint (speed (actuators (fst (driveActuators t_check t_store s)) ! i))
       \<and> sint (speed (actuators (fst (driveActuators t_check t_store s)) ! i)) \<le> 255"
proof -
  from assms(2) have i: "i = 0 \<or> i = Suc 0"
    by (auto simp: NUMBER_OF_ACTUATORS_def)
  then have sp: "speed (actuators (fst (driveActuators t_check t_store s)) ! i) =
      speed_of (offsets s ! i)"
    by (auto simp: driveActuators_actuators [OF assms(1)])
  from i have "offsets s ! i =
      offset_of (avgSteps_of NUMBER_OF_ACTUATORS (actuators s)) (steps (actuators s ! i)) (direction s)"
    by (auto simp: offsets_nth)
  then have "BASE_SPEED + offsets s ! i \<noteq> - 32768"
    using base_plus_offset_not_min [OF assms(3,4)] by simp
  then show ?thesis
    unfolding sp by (rule speed_of_range)
qed

text \<open>
  C3. The speed that \<open>driveActuators\<close> computes for an actuator,
  \<^verbatim>\<open>min(abs(BASE_SPEED + offset), 255)\<close>, is meant to lie in \<open>[0, 255]\<close> for all step
  counts. The code does not keep this at step counts \<open>0, 65496\<close> with direction Forward:
  the average is 32748, the \<^verbatim>\<open>long\<close> product \<open>32748 * 5 = 163740\<close> becomes the \<^verbatim>\<open>int\<close>
  offset 32668, \<open>100 + 32668\<close> wraps around to \<open>-32768\<close>, \<^verbatim>\<open>abs\<close> and \<^verbatim>\<open>min\<close> return
  that value unchanged, and the speed stored for actuator 0 and written to its forward
  pin 9 is \<open>-32768\<close>.
\<close>

theorem speed_escapes_clamp:
  "offsets (example_state 0 65496 1) ! 0 = 32668
   \<and> BASE_SPEED + offsets (example_state 0 65496 1) ! 0 = - 32768
   \<and> sint (speed (actuators (fst (driveActuators 0 0 (example_state 0 65496 1))) ! 0)) = - 32768
   \<and> \<not> 0 \<le> sint (speed (actuators (fst (driveActuators 0 0 (example_state 0 65496 1))) ! 0))
   \<and> pwm_trace (snd (driveActuators 0 0 (example_state 0 65496 1))) ! 0 = (9, - 32768)"
proof -
  have avg: "long_div 65496 2 = 32748"
    by (simp add: long_div_def signed_divide_int_def)
  have ofs: "offset_of 32748 0 1 = 32668"
    by (simp add: offset_of_def OFFSET_MULTIPLIER_def long_of_int_def int_of_long_def)
  have off: "offsets (example_state 0 65496 1) ! 0 = 32668"
    by (simp add: offsets_example avg ofs)
  have sp: "speed_of 32668 = - 32768"
    by (simp add: speed_of_def BASE_SPEED_def abs_int_def min_int_def word_sless_alt)
  have dir: "direction (example_state 0 65496 1) = 1"
    by (simp add: example_state_def)
  show ?thesis
    by (simp add: off driveActuators_actuators driveActuators_pwm sp dir BASE_SPEED_def)
qed

section \<open>Routing of the speed to the PWM outputs\<close>

text \<open>
  C7. Scenario B: when the direction is Stop, \<open>driveActuators\<close> writes 0 to the forward
  and to the reverse PWM output of every actuator, whatever speed it computed.
\<close>

theorem stop_writes_zero:
  assumes "wf_state s" and "direction s = 0"
  shows "pwm_trace (snd (driveActuators t_check t_store s)) =
           [(FPWM ! 0, 0), (RPWM ! 0, 0), (FPWM ! 1, 0), (RPWM ! 1, 0)]"
  using assms(2) by (simp add: driveActuators_pwm [OF assms(1)] FPWM_def RPWM_def)

text \<open>
  The theorem at step counts \<open>100, 80\<close> with direction Stop (the speed computed is 100).
\<close>

theorem stop_writes_zero_witness:
  "wf_state (example_state 100 80 0) \<and> direction (example_state 100 80 0) = 0
   \<and> pwm_trace (snd (driveActuators 0 0 (example_state 100 80 0))) = [(9, 0), (10, 0), (5, 0), (6, 0)]"
proof -
  have h1: "wf_state (example_state 100 80 0)" by simp
  have h2: "direction (example_state 100 80 0) = 0" by (simp add: example_state_def)
  show ?thesis
    using h1 h2 stop_writes_zero [OF h1 h2, of 0 0] by (simp add: FPWM_def RPWM_def)
qed

lemma dwell_pass_pwm:
  "pwm_trace (dwell_pass spd s) =
     [(9, if direction s = 1 then spd else 0), (10, if direction s = - 1 then spd else 0),
      (5, if direction s = 1 then spd else 0), (6, if direction s = - 1 then spd else 0)]"
  by (simp add: dwell_pass_def upt_actuators FPWM_def RPWM_def)

text \<open>
  C8. In one call of \<open>driveActuators\<close>, and in one pass of the dwell loop of
  \<open>moveToLimit\<close>, the writes are one to the forward pin and one to the reverse pin of
  actuator 0, then of actuator 1, and of the two values written for an actuator at most
  one is not zero.
\<close>

theorem pwm_mutually_exclusive:
  assumes "wf_state s"
  shows "map fst (pwm_trace (snd (driveActuators t_check t_store s))) =
           [FPWM ! 0, RPWM ! 0, FPWM ! 1, RPWM ! 1]
       \<and> (snd (pwm_trace (snd (driveActuators t_check t_store s)) ! 0) = 0
           \<or> snd (pwm_trace (snd (driveActuators t_check t_store s)) ! 1) = 0)
       \<and> (snd (pwm_trace (snd (driveActuators t_check t_store s)) ! 2) = 0
           \<or> snd (pwm_trace (snd (driveActuators t_check t_store s)) ! 3) = 0)
       \<and> map fst (pwm_trace (dwell_pass spd s)) = [FPWM ! 0, RPWM ! 0, FPWM ! 1, RPWM ! 1]
       \<and> (snd (pwm_trace (dwell_pass spd s) ! 0) = 0 \<or> snd (pwm_trace (dwell_pass spd s) ! 1) = 0)
       \<and> (snd (pwm_trace (dwell_pass spd s) ! 2) = 0 \<or> snd (pwm_trace (dwell_pass spd s) ! 3) = 0)"
  by (simp add: driveActuators_pwm [OF assms] dwell_pass_pwm FPWM_def RPWM_def)

text \<open>The theorem at step counts \<open>100, 80\<close>, direction Forward, and limit speed 200.\<close>

theorem pwm_mutually_exclusive_witness:
  "wf_state (example_state 100 80 1)
   \<and> pwm_trace (snd (driveActuators 0 0 (example_state 100 80 1))) ! 1 = (10, 0)
   \<and> pwm_trace (snd (driveActuators 0 0 (example_state 100 80 1))) ! 3 = (6, 0)
   \<and> pwm_trace (dwell_pass 200 (example_state 100 80 1)) = [(9, 200), (10, 0), (5, 200), (6, 0)]"
proof -
  have h: "wf_state (example_state 100 80 1)" by simp
  have d: "direction (example_state 100 80 1) = 1" by (simp add: example_state_def)
  show ?thesis
    using h pwm_mutually_exclusive [OF h, of 0 0 200]
    by (simp add: driveActuators_pwm dwell_pass_pwm d)
qed

section \<open>What \<open>driveActuators\<close> reads and writes\<close>

lemma offsets_cong:
  assumes "wf_state s" and "wf_state s'"
    and "map steps (actuators s) = map steps (actuators s')"
    and "direction s = direction s'"
  shows "offsets s = offsets s'"
proof -
  from assms(1) obtain a0 a1 d0 d1 where s: "actuators s = [a0, a1]" "lastDebounceTime s = [d0, d1]"
    by (rule wf_stateE)
  from assms(2) obtain b0 b1 e0 e1 where s': "actuators s' = [b0, b1]" "lastDebounceTime s' = [e0, e1]"
    by (rule wf_stateE)
  from assms(3) have "steps a0 = steps b0" "steps a1 = steps b1"
    by (simp_all add: s s')
  then show ?thesis
    by (simp add: offsets_def avgSteps_of_def totalSteps_loop_def upt_actuators s s' assms(4))
qed

lemma wf_driveActuators:
  assumes "wf_state s"
  shows "wf_state (fst (driveActuators t_check t_store s))"
  using assms
  by (simp add: wf_state_def driveActuators_actuators [OF assms] driveActuators_globals [OF assms]
      NUMBER_OF_ACTUATORS_def)

lemma driveActuators_steps:
  assumes "wf_state s"
  shows "map steps (actuators (fst (driveActuators t_check t_store s))) = map steps (actuators s)"
    and "map prevSteps (actuators (fst (driveActuators t_check t_store s))) = map prevSteps (actuators s)"
proof -
  from assms obtain a0 a1 d0 d1 where s: "actuators s = [a0, a1]" "lastDebounceTime s = [d0, d1]"
    by (rule wf_stateE)
  show "map steps (actuators (fst (driveActuators t_check t_store s))) = map steps (actuators s)"
    "map prevSteps (actuators (fst (driveActuators t_check t_store s))) = map prevSteps (actuators s)"
    by (simp_all add: driveActuators_actuators [OF assms]) (simp_all add: s)
qed

text \<open>
  C9. The offsets, the speeds and the PWM writes of \<open>driveActuators\<close> depend on the step
  counts and the direction only: two calls in states that agree on them (at any times,
  whatever the other variables hold) compute the same offsets, speeds and PWM writes.
\<close>

theorem driveActuators_deterministic:
  assumes "wf_state s" and "wf_state s'"
    and "map steps (actuators s) = map steps (actuators s')"
    and "direction s = direction s'"
  shows "offsets s = offsets s'
       \<and> map speed (actuators (fst (driveActuators t_check t_store s))) =
           map speed (actuators (fst (driveActuators t_check' t_store' s')))
       \<and> pwm_trace (snd (driveActuators t_check t_store s)) =
           pwm_trace (snd (driveActuators t_check' t_store' s'))"
  using offsets_cong [OF assms]
  by (simp add: driveActuators_actuators [OF assms(1)] driveActuators_actuators [OF assms(2)]
      driveActuators_pwm [OF assms(1)] driveActuators_pwm [OF assms(2)] assms(4))

text \<open>The theorem at two successive calls, from step counts \<open>100, 80\<close>.\<close>

theorem driveActuators_deterministic_witness:
  "wf_state (example_state 100 80 1)
   \<and> wf_state (fst (driveActuators 0 0 (example_state 100 80 1)))
   \<and> map steps (actuators (example_state 100 80 1)) =
       map steps (actuators (fst (driveActuators 0 0 (example_state 100 80 1))))
   \<and> direction (example_state 100 80 1) = direction (fst (driveActuators 0 0 (example_state 100 80 1)))
   \<and> offsets (example_state 100 80 1) = offsets (fst (driveActuators 0 0 (example_state 100 80 1)))
   \<and> map speed (actuators (fst (driveActuators 0 0 (example_state 100 80 1)))) =
       map speed (actuators (fst (driveActuators 7 7 (fst (driveActuators 0 0 (example_state 100 80 1))))))
   \<and> pwm_trace (snd (driveActuators 0 0 (example_state 100 80 1))) =
       pwm_trace (snd (driveActuators 7 7 (fst (driveActuators 0 0 (example_state 100 80 1)))))"
proof -
  have h1: "wf_state (example_state 100 80 1)" by simp
  have h2: "wf_state (fst (driveActuators 0 0 (example_state 100 80 1)))"
    by (rule wf_driveActuators [OF h1])
  have h3: "map steps (actuators (example_state 100 80 1)) =
       map steps (actuators (fst (driveActuators 0 0 (example_state 100 80 1))))"
    by (simp add: driveActuators_steps [OF h1])
  have h4: "direction (example_state 100 80 1) = direction (fst (driveActuators 0 0 (example_state 100 80 1)))"
    by (simp add: driveActuators_globals [OF h1])
  show ?thesis
    using h1 h2 h3 h4 driveActuators_deterministic [OF h1 h2 h3 h4, of 0 0 7 7] by simp
qed

text \<open>
  C10. One call of \<open>driveActuators\<close> (with no interrupt during it) leaves \<open>steps\<close> and
  \<open>prevSteps\<close> of every actuator as they were: each actuator's record after the call is
  its record before the call with a new \<open>speed\<close>. The direction and the debounce times are
  unchanged too.
\<close>

theorem driveActuators_frame:
  assumes "wf_state s"
  shows "map steps (actuators (fst (driveActuators t_check t_store s))) = map steps (actuators s)
       \<and> map prevSteps (actuators (fst (driveActuators t_check t_store s))) = map prevSteps (actuators s)
       \<and> actuators (fst (driveActuators t_check t_store s)) =
           map2 (\<lambda>a v. a\<lparr>speed := v\<rparr>) (actuators s)
             (map speed (actuators (fst (driveActuators t_check t_store s))))
       \<and> direction (fst (driveActuators t_check t_store s)) = direction s
       \<and> lastDebounceTime (fst (driveActuators t_check t_store s)) = lastDebounceTime s"
proof -
  from assms obtain a0 a1 d0 d1 where s: "actuators s = [a0, a1]" "lastDebounceTime s = [d0, d1]"
    by (rule wf_stateE)
  have "actuators (fst (driveActuators t_check t_store s)) =
           map2 (\<lambda>a v. a\<lparr>speed := v\<rparr>) (actuators s)
             (map speed (actuators (fst (driveActuators t_check t_store s))))"
    by (simp add: driveActuators_actuators [OF assms]) (simp add: s)
  then show ?thesis
    by (simp add: driveActuators_steps [OF assms] driveActuators_globals [OF assms])
qed

text \<open>The theorem at step counts \<open>100, 80\<close>.\<close>

theorem driveActuators_frame_witness:
  "wf_state (example_state 100 80 1)
   \<and> map steps (actuators (fst (driveActuators 0 0 (example_state 100 80 1)))) = [100, 80]
   \<and> map prevSteps (actuators (fst (driveActuators 0 0 (example_state 100 80 1)))) = [0, 0]"
proof -
  have h: "wf_state (example_state 100 80 1)" by simp
  show ?thesis
    using h driveActuators_frame [OF h, of 0 0] by (simp add: example_state_def)
qed

section \<open>The interrupt handlers\<close>

lemma long_of_int_direction:
  "long_of_int 1 = 1" "long_of_int (- 1) = - 1" "long_of_int 0 = 0"
  by (simp_all add: long_of_int_def)

lemma counter_0_eq:
  assumes "wf_state s"
  shows "counter_0 now s =
     (if FALSE_PULSE_DELAY < now - lastDebounceTime s ! 0
      then s\<lparr>lastDebounceTime := [now, lastDebounceTime s ! 1],
             actuators := [(actuators s ! 0)\<lparr>steps := steps (actuators s ! 0) + long_of_int (direction s)\<rparr>,
                           actuators s ! 1]\<rparr>
      else s)"
proof -
  from assms obtain a0 a1 d0 d1 where "actuators s = [a0, a1]" "lastDebounceTime s = [d0, d1]"
    by (rule wf_stateE)
  then show ?thesis by (simp add: counter_0_def)
qed

lemma counter_1_eq:
  assumes "wf_state s"
  shows "counter_1 now s =
     (if FALSE_PULSE_DELAY < now - lastDebounceTime s ! 1
      then s\<lparr>lastDebounceTime := [lastDebounceTime s ! 0, now],
             actuators := [actuators s ! 0,
                           (actuators s ! 1)\<lparr>steps := steps (actuators s ! 1) + long_of_int (direction s)\<rparr>]\<rparr>
      else s)"
proof -
  from assms obtain a0 a1 d0 d1 where "actuators s = [a0, a1]" "lastDebounceTime s = [d0, d1]"
    by (rule wf_stateE)
  then show ?thesis by (simp add: counter_1_def)
qed

text \<open>
  C6. A handler that finds more than 8 ms elapsed since the time it recorded last records
  the new time and adds the direction to \<open>steps\<close> of its actuator: \<open>+1\<close> when the
  direction is Forward, \<open>-1\<close> when it is Reverse. Nothing else changes. Otherwise the
  handler changes nothing: \<open>steps\<close> and the recorded time stay as they were.
\<close>

theorem counter_accepts_or_discards:
  assumes "wf_state s"
  shows "counter_0 now s =
     (if FALSE_PULSE_DELAY < now - lastDebounceTime s ! 0
      then s\<lparr>lastDebounceTime := [now, lastDebounceTime s ! 1],
             actuators := [(actuators s ! 0)\<lparr>steps := steps (actuators s ! 0) +
                              (if direction s = 1 then 1 else if direction s = - 1 then - 1
                               else long_of_int (direction s))\<rparr>,
                           actuators s ! 1]\<rparr>
      else s)
   \<and> counter_1 now s =
     (if FALSE_PULSE_DELAY < now - lastDebounceTime s ! 1
      then s\<lparr>lastDebounceTime := [lastDebounceTime s ! 0, now],
             actuators := [actuators s ! 0,
                           (actuators s ! 1)\<lparr>steps := steps (actuators s ! 1) +
                              (if direction s = 1 then 1 else if direction s = - 1 then - 1
                               else long_of_int (direction s))\<rparr>]\<rparr>
      else s)"
  by (simp add: counter_0_eq [OF assms] counter_1_eq [OF assms] long_of_int_direction)

text \<open>
  The theorem at an edge on actuator 0 at 20 ms (accepted, Forward), at 5 ms (discarded),
  and at an edge on actuator 1 at 20 ms (accepted, Reverse).
\<close>

theorem counter_accepts_or_discards_witness:
  "wf_state (example_state 0 0 1)
   \<and> counter_0 20 (example_state 0 0 1) =
       (example_state 0 0 1)\<lparr>lastDebounceTime := [20, 0],
          actuators := [\<lparr>speed = 0, steps = 1, prevSteps = 0\<rparr>, \<lparr>speed = 0, steps = 0, prevSteps = 0\<rparr>]\<rparr>
   \<and> counter_0 5 (example_state 0 0 1) = example_state 0 0 1
   \<and> counter_1 20 (example_state 0 0 (- 1)) =
       (example_state 0 0 (- 1))\<lparr>lastDebounceTime := [0, 20],
          actuators := [\<lparr>speed = 0, steps = 0, prevSteps = 0\<rparr>, \<lparr>speed = 0, steps = - 1, prevSteps = 0\<rparr>]\<rparr>"
proof -
  have h1: "wf_state (example_state 0 0 1)" by simp
  have h2: "wf_state (example_state 0 0 (- 1))" by simp
  show ?thesis
    using h1 counter_accepts_or_discards [OF h1, of 20]
      counter_accepts_or_discards [OF h1, of 5]
      counter_accepts_or_discards [OF h2, of 20]
    by (simp add: example_state_def FALSE_PULSE_DELAY_def)
qed

lemma wf_isr: "wf_state s \<Longrightarrow> wf_state (isr e s)"
  by (cases e) (auto simp: counter_0_def counter_1_def wf_state_def)

lemma wf_interrupts: "wf_state s \<Longrightarrow> wf_state (interrupts evs s)"
  by (induction evs arbitrary: s) (simp_all add: wf_isr)

lemma isr_direction [simp]: "direction (isr e s) = direction s"
  by (cases e) (simp_all add: counter_0_def counter_1_def)

lemma interrupts_direction [simp]: "direction (interrupts evs s) = direction s"
  by (induction evs arbitrary: s) simp_all

lemma isr_rejected: "\<not> accepts e s \<Longrightarrow> isr e s = s"
  by (cases e) (simp_all add: accepts_def counter_0_def counter_1_def)

lemma isr_accepted_time:
  "wf_state s \<Longrightarrow> accepts e s \<Longrightarrow>
     lastDebounceTime (isr e s) ! edge_actuator e = millis (edge_time e)"
  by (cases e) (simp_all add: accepts_def counter_0_eq counter_1_eq)

lemma isr_accepted_steps:
  "wf_state s \<Longrightarrow> accepts e s \<Longrightarrow>
     steps (actuators (isr e s) ! edge_actuator e) =
       steps (actuators s ! edge_actuator e) + long_of_int (direction s)"
  by (cases e) (simp_all add: accepts_def counter_0_eq counter_1_eq)

lemma isr_other_actuator:
  "wf_state s \<Longrightarrow> edge_actuator e \<noteq> a \<Longrightarrow> a < NUMBER_OF_ACTUATORS \<Longrightarrow>
     lastDebounceTime (isr e s) ! a = lastDebounceTime s ! a \<and>
     actuators (isr e s) ! a = actuators s ! a"
  by (cases e) (auto simp: counter_0_eq counter_1_eq NUMBER_OF_ACTUATORS_def less_Suc_eq numeral_2_eq_2)

lemma isr_prevSteps:
  "wf_state s \<Longrightarrow> map prevSteps (actuators (isr e s)) = map prevSteps (actuators s)"
proof -
  assume wf: "wf_state s"
  then obtain a0 a1 d0 d1 where "actuators s = [a0, a1]" "lastDebounceTime s = [d0, d1]"
    by (rule wf_stateE)
  then show ?thesis
    by (cases e) (simp_all add: counter_0_eq [OF wf] counter_1_eq [OF wf])
qed

lemma interrupts_prevSteps:
  "wf_state s \<Longrightarrow> map prevSteps (actuators (interrupts evs s)) = map prevSteps (actuators s)"
  by (induction evs arbitrary: s) (simp_all add: isr_prevSteps wf_isr)

section \<open>Debounce\<close>

lemma millis_gap:
  assumes "T \<le> t" and "FALSE_PULSE_DELAY < millis t - millis T"
  shows "T + 8 < t"
proof -
  have "millis t - millis T = (of_nat (t - T) :: culong)"
    using assms(1) by (simp add: millis_def)
  then have "8 < unat (of_nat (t - T) :: culong)"
    using assms(2) by (simp add: FALSE_PULSE_DELAY_def word_less_nat_alt)
  also have "unat (of_nat (t - T) :: culong) \<le> t - T"
    by (simp add: unat_of_nat)
  finally show ?thesis by simp
qed

lemma accepted_after_last:
  assumes "wf_state s" and "a < NUMBER_OF_ACTUATORS" and "sorted (map edge_time evs)"
    and "lastDebounceTime s ! a = millis T" and "\<forall>e\<in>set evs. T \<le> edge_time e"
  shows "sorted_wrt (\<lambda>x y. x + 8 < y) (accepted_times a evs s)
       \<and> (\<forall>x\<in>set (accepted_times a evs s). T + 8 < x)"
  using assms
proof (induction evs arbitrary: s T)
  case Nil
  then show ?case by simp
next
  case (Cons e es)
  have wf': "wf_state (isr e s)" using Cons.prems(1) by (rule wf_isr)
  have sorted': "sorted (map edge_time es)" using Cons.prems(3) by simp
  show ?case
  proof (cases "edge_actuator e = a \<and> accepts e s")
    case True
    then have "FALSE_PULSE_DELAY < millis (edge_time e) - millis T"
      using Cons.prems(4) by (auto simp: accepts_def)
    moreover have "T \<le> edge_time e"
      using Cons.prems(5) by simp
    ultimately have gap: "T + 8 < edge_time e"
      by (rule millis_gap [rotated])
    have last: "lastDebounceTime (isr e s) ! a = millis (edge_time e)"
      using True isr_accepted_time [OF Cons.prems(1)] by auto
    have later: "\<forall>e'\<in>set es. edge_time e \<le> edge_time e'"
      using Cons.prems(3) by simp
    from Cons.IH [OF wf' Cons.prems(2) sorted' last later] gap True
    show ?thesis by auto
  next
    case False
    have last: "lastDebounceTime (isr e s) ! a = millis T"
    proof (cases "edge_actuator e = a")
      case True
      with False have "\<not> accepts e s" by simp
      then show ?thesis using Cons.prems(4) by (simp add: isr_rejected)
    next
      case False
      then show ?thesis
        using isr_other_actuator [OF Cons.prems(1) False Cons.prems(2)] Cons.prems(4) by simp
    qed
    have later: "\<forall>e'\<in>set es. T \<le> edge_time e'"
      using Cons.prems(5) by simp
    from False have "accepted_times a (e # es) s = accepted_times a es (isr e s)"
      by auto
    with Cons.IH [OF wf' Cons.prems(2) sorted' last later]
    show ?thesis by simp
  qed
qed

lemma accepted_sorted_wrt:
  assumes "wf_state s" and "a < NUMBER_OF_ACTUATORS" and "sorted (map edge_time evs)"
  shows "sorted_wrt (\<lambda>x y. x + 8 < y) (accepted_times a evs s)"
  using assms
proof (induction evs arbitrary: s)
  case Nil
  then show ?case by simp
next
  case (Cons e es)
  have wf': "wf_state (isr e s)" using Cons.prems(1) by (rule wf_isr)
  have sorted': "sorted (map edge_time es)" using Cons.prems(3) by simp
  show ?case
  proof (cases "edge_actuator e = a \<and> accepts e s")
    case True
    have last: "lastDebounceTime (isr e s) ! a = millis (edge_time e)"
      using True isr_accepted_time [OF Cons.prems(1)] by auto
    have later: "\<forall>e'\<in>set es. edge_time e \<le> edge_time e'"
      using Cons.prems(3) by simp
    from accepted_after_last [OF wf' Cons.prems(2) sorted' last later] True
    show ?thesis by auto
  next
    case False
    then have "accepted_times a (e # es) s = accepted_times a es (isr e s)"
      by auto
    with Cons.IH [OF wf' Cons.prems(2) sorted'] show ?thesis by simp
  qed
qed

lemma accepted_steps:
  assumes "wf_state s" and "a < NUMBER_OF_ACTUATORS"
  shows "steps (actuators (interrupts evs s) ! a) =
           steps (actuators s ! a) + of_nat (length (accepted_times a evs s)) * long_of_int (direction s)"
  using assms
proof (induction evs arbitrary: s)
  case Nil
  then show ?case by simp
next
  case (Cons e es)
  have wf': "wf_state (isr e s)" using Cons.prems(1) by (rule wf_isr)
  note IH = Cons.IH [OF wf' Cons.prems(2)]
  show ?case
  proof (cases "accepts e s")
    case False
    then show ?thesis using IH by (simp add: isr_rejected)
  next
    case acc: True
    show ?thesis
    proof (cases "edge_actuator e = a")
      case True
      then show ?thesis
        using IH acc isr_accepted_steps [OF Cons.prems(1) acc] by (simp add: algebra_simps)
    next
      case False
      then show ?thesis
        using IH isr_other_actuator [OF Cons.prems(1) False Cons.prems(2)] by simp
    qed
  qed
qed

text \<open>
  C5. Let the handlers run on any sequence of edges given in the order of their times.
  For each actuator, any two edges that its handler accepts are more than 8 ms apart, so
  at least 8 ms; and the accepted edges are the ones that adjust \<open>steps\<close>: the step count
  moves by the direction once for each accepted edge.
\<close>

theorem debounce_separation:
  assumes "wf_state s" and "a < NUMBER_OF_ACTUATORS" and "sorted (map edge_time evs)"
  shows "sorted_wrt (\<lambda>x y. x + 8 < y) (accepted_times a evs s)
       \<and> steps (actuators (interrupts evs s) ! a) =
           steps (actuators s ! a) + of_nat (length (accepted_times a evs s)) * long_of_int (direction s)"
  using accepted_sorted_wrt [OF assms] accepted_steps [OF assms(1,2)] by simp

text \<open>
  Scenario C: edges on actuator 0 at 20, 25 and 30 ms (and one on actuator 1 at 27 ms):
  the edges at 20 and 30 ms are accepted, the one at 25 ms is not.
\<close>

theorem debounce_separation_witness:
  "wf_state (example_state 0 0 1) \<and> (0::nat) < NUMBER_OF_ACTUATORS
   \<and> sorted (map edge_time [Hall0 20, Hall0 25, Hall1 27, Hall0 30])
   \<and> accepted_times 0 [Hall0 20, Hall0 25, Hall1 27, Hall0 30] (example_state 0 0 1) = [20, 30]
   \<and> sorted_wrt (\<lambda>x y. x + 8 < y) [20, 30 :: nat]
   \<and> steps (actuators (interrupts [Hall0 20, Hall0 25, Hall1 27, Hall0 30] (example_state 0 0 1)) ! 0) = 2"
proof -
  have h1: "wf_state (example_state 0 0 1)" by simp
  have h2: "(0::nat) < NUMBER_OF_ACTUATORS" by (simp add: NUMBER_OF_ACTUATORS_def)
  have h3: "sorted (map edge_time [Hall0 20, Hall0 25, Hall1 27, Hall0 30])" by simp
  have acc: "accepted_times 0 [Hall0 20, Hall0 25, Hall1 27, Hall0 30] (example_state 0 0 1) = [20, 30]"
    by (simp add: accepts_def counter_0_def counter_1_def millis_def FALSE_PULSE_DELAY_def
        example_state_def)
  show ?thesis
    using h1 h2 h3 debounce_separation [OF h1 h2 h3]
    unfolding acc
    by (simp add: example_state_def long_of_int_direction counter_0_def counter_1_def millis_def
        FALSE_PULSE_DELAY_def)
qed

section \<open>Limit seeking\<close>

lemma interrupts_append: "interrupts (xs @ ys) s = interrupts ys (interrupts xs s)"
  by (induction xs arbitrary: s) simp_all

lemma snapshot_eq:
  assumes "wf_state s"
  shows "snapshot s =
     s\<lparr>actuators := [(actuators s ! 0)\<lparr>prevSteps := steps (actuators s ! 0)\<rparr>,
                     (actuators s ! 1)\<lparr>prevSteps := steps (actuators s ! 1)\<rparr>]\<rparr>"
proof -
  from assms obtain a0 a1 d0 d1 where "actuators s = [a0, a1]" "lastDebounceTime s = [d0, d1]"
    by (rule wf_stateE)
  then show ?thesis by (simp add: snapshot_def upt_actuators)
qed

lemma reset_steps_eq:
  assumes "wf_state s"
  shows "reset_steps s =
     s\<lparr>actuators := [(actuators s ! 0)\<lparr>steps := 0, prevSteps := 0\<rparr>,
                     (actuators s ! 1)\<lparr>steps := 0, prevSteps := 0\<rparr>]\<rparr>"
proof -
  from assms obtain a0 a1 d0 d1 where "actuators s = [a0, a1]" "lastDebounceTime s = [d0, d1]"
    by (rule wf_stateE)
  then show ?thesis by (simp add: reset_steps_def upt_actuators)
qed

lemma wf_snapshot: "wf_state s \<Longrightarrow> wf_state (snapshot s)"
  by (simp add: snapshot_eq) (simp add: wf_state_def NUMBER_OF_ACTUATORS_def)

lemma snapshot_prevSteps:
  assumes "wf_state s"
  shows "map prevSteps (actuators (snapshot s)) = map steps (actuators s)"
proof -
  from assms obtain a0 a1 d0 d1 where "actuators s = [a0, a1]" "lastDebounceTime s = [d0, d1]"
    by (rule wf_stateE)
  then show ?thesis by (simp add: snapshot_eq [OF assms])
qed

lemma dwell_state: "fst (dwell spd ps acc) = interrupts (concat ps) (fst acc)"
  by (induction ps arbitrary: acc) (simp_all add: Let_def interrupts_append)

lemma run_window_state:
  "fst (run_window spd w acc) =
     interrupts (concat (passes w) @ before_check w)
       (snapshot (interrupts (before_snapshot w) (fst acc)))"
  by (simp add: run_window_def Let_def dwell_state interrupts_append)

lemma wf_run_window:
  "wf_state (fst acc) \<Longrightarrow> wf_state (fst (run_window spd w acc))"
  by (simp add: run_window_state wf_interrupts wf_snapshot)

lemma run_window_prevSteps:
  assumes "wf_state (fst acc)"
  shows "map prevSteps (actuators (fst (run_window spd w acc))) =
           map steps (actuators (interrupts (before_snapshot w) (fst acc)))"
  by (simp add: run_window_state interrupts_prevSteps wf_snapshot wf_interrupts
      snapshot_prevSteps assms)

lemma ex_less_2: "(\<exists>i<(2::nat). P i) \<longleftrightarrow> P 0 \<or> P (Suc 0)"
proof
  assume "\<exists>i<2. P i"
  then obtain i where i: "i < 2" "P i" by blast
  from i(1) have "i = 0 \<or> i = Suc 0" by arith
  with i(2) show "P 0 \<or> P (Suc 0)" by blast
next
  assume "P 0 \<or> P (Suc 0)"
  then show "\<exists>i<2. P i"
    by (elim disjE) (rule exI [of _ 0], simp, rule exI [of _ "Suc 0"], simp)
qed

lemma haveStepsChanged_iff:
  "haveStepsChanged s \<longleftrightarrow>
     (\<exists>i<NUMBER_OF_ACTUATORS. prevSteps (actuators s ! i) \<noteq> steps (actuators s ! i))"
  unfolding haveStepsChanged_def upt_actuators
  unfolding NUMBER_OF_ACTUATORS_def ex_less_2
  by simp

text \<open>
  C4. In each iteration of the loop of \<open>moveToLimit\<close>, \<open>prevSteps\<close> at the check holds the
  step counts that the actuators had when the snapshot was taken. If at the check every
  actuator's \<open>steps\<close> equals its \<open>prevSteps\<close>, the loop ends there with the state of the
  check; if some actuator's count differs, the loop goes into another iteration.
\<close>

theorem limit_seeker_check:
  assumes "wf_state (fst acc)"
  shows "map prevSteps (actuators (fst (run_window spd w acc))) =
           map steps (actuators (interrupts (before_snapshot w) (fst acc)))
       \<and> seek_loop spd (w # ws) acc =
           (if \<forall>i<NUMBER_OF_ACTUATORS.
                 steps (actuators (fst (run_window spd w acc)) ! i) =
                 prevSteps (actuators (fst (run_window spd w acc)) ! i)
            then Some (run_window spd w acc)
            else seek_loop spd ws (run_window spd w acc))"
  using run_window_prevSteps [OF assms]
  by (auto simp: Let_def haveStepsChanged_iff)

lemma run_window_moving:
  "run_window 200 window_moving (reset_steps (example_state 5 7 1), [Println_str ''Moving to limit...'']) =
     (\<lparr>actuators = [\<lparr>speed = 0, steps = 0, prevSteps = 0\<rparr>, \<lparr>speed = 0, steps = 1, prevSteps = 0\<rparr>],
       direction = 1, lastDebounceTime = [0, 300], lastLogTime = 0\<rparr>,
      [Println_str ''Moving to limit...'',
       AnalogWrite 9 200, AnalogWrite 10 0, AnalogWrite 5 200, AnalogWrite 6 0,
       AnalogWrite 9 200, AnalogWrite 10 0, AnalogWrite 5 200, AnalogWrite 6 0])"
  unfolding window_moving_def example_state_def
  by (simp add: reset_steps_def snapshot_def upt_actuators run_window_def Let_def
      dwell_pass_def FPWM_def RPWM_def counter_0_def counter_1_def
      millis_def FALSE_PULSE_DELAY_def long_of_int_direction)

text \<open>
  Scenario D: actuator 0 never moves and actuator 1 gives an edge in the first window. At
  the first check the counts are \<open>0, 1\<close> against the snapshot \<open>0, 0\<close>, and the loop goes into
  another iteration.
\<close>

theorem limit_seeker_check_witness:
  "wf_state (fst (reset_steps (example_state 5 7 1), [Println_str ''Moving to limit...'']))
   \<and> map steps (actuators (fst (run_window 200 window_moving
         (reset_steps (example_state 5 7 1), [Println_str ''Moving to limit...''])))) = [0, 1]
   \<and> map prevSteps (actuators (fst (run_window 200 window_moving
         (reset_steps (example_state 5 7 1), [Println_str ''Moving to limit...''])))) = [0, 0]
   \<and> seek_loop 200 [window_moving]
         (reset_steps (example_state 5 7 1), [Println_str ''Moving to limit...'']) = None
   \<and> seek_loop 200 [window_moving, window_quiet]
         (reset_steps (example_state 5 7 1), [Println_str ''Moving to limit...'']) =
       seek_loop 200 [window_quiet] (run_window 200 window_moving
         (reset_steps (example_state 5 7 1), [Println_str ''Moving to limit...'']))"
proof -
  have h: "wf_state (fst (reset_steps (example_state 5 7 1), [Println_str ''Moving to limit...'']))"
    by (simp add: reset_steps_eq) (simp add: wf_state_def NUMBER_OF_ACTUATORS_def example_state_def)
  have moved: "\<not> (\<forall>i<NUMBER_OF_ACTUATORS.
      steps (actuators (fst (run_window 200 window_moving
        (reset_steps (example_state 5 7 1), [Println_str ''Moving to limit...'']))) ! i) =
      prevSteps (actuators (fst (run_window 200 window_moving
        (reset_steps (example_state 5 7 1), [Println_str ''Moving to limit...'']))) ! i))"
    unfolding run_window_moving
    by (auto simp: NUMBER_OF_ACTUATORS_def intro!: exI [of _ 1])
  show ?thesis
    using h limit_seeker_check [OF h, of 200 window_moving "[]"]
      limit_seeker_check [OF h, of 200 window_moving "[window_quiet]"]
    by (simp only: moved if_False seek_loop.simps(1)) (simp add: run_window_moving)
qed

text \<open>With no edge in the second window the loop ends at the second check.\<close>

lemma moving_quiet:
  "moveToLimit 200 [window_moving, window_quiet] (example_state 5 7 1) =
     Some (\<lparr>actuators = [\<lparr>speed = 0, steps = 0, prevSteps = 0\<rparr>, \<lparr>speed = 0, steps = 1, prevSteps = 1\<rparr>],
            direction = 1, lastDebounceTime = [0, 300], lastLogTime = 0\<rparr>,
           [Println_str ''Moving to limit...'',
            AnalogWrite 9 200, AnalogWrite 10 0, AnalogWrite 5 200, AnalogWrite 6 0,
            AnalogWrite 9 200, AnalogWrite 10 0, AnalogWrite 5 200, AnalogWrite 6 0,
            AnalogWrite 9 200, AnalogWrite 10 0, AnalogWrite 5 200, AnalogWrite 6 0,
            AnalogWrite 9 200, AnalogWrite 10 0, AnalogWrite 5 200, AnalogWrite 6 0])"
  unfolding moveToLimit_def window_moving_def window_quiet_def example_state_def
  by (simp add: reset_steps_def snapshot_def upt_actuators run_window_def Let_def
      haveStepsChanged_def dwell_pass_def FPWM_def RPWM_def counter_0_def counter_1_def
      millis_def FALSE_PULSE_DELAY_def long_of_int_direction)

end
